theory Spec2Isabelle
  imports Main "HOL-Library.AList" "HOL-Library.DAList" "HOL-Library.Word"
begin

section \<open>Blockstore (blocks/blockstore/blockstore.go)\<close>

text \<open>
  A \<open>u.Key\<close> is a Go string holding the bytes of a multihash; a \<open>ds.Key\<close> is the
  datastore's own key, carried here by its string form.
\<close>

type_synonym key = string
type_synonym dskey = string

datatype ds_error = DsErrNotFound | DsErrOther string

text \<open>A datastore value is an \<open>interface{}\<close>; the blockstore only stores byte slices.\<close>

datatype ds_value = Bytes string | NotBytes

text \<open>
  Modelled from the spec: the type \<open>Block\<close> of the package blocks, which is not among the
  sources: "an immutable byte payload plus its Key". The blockstore reads it through
  \<open>block.Key()\<close> and \<open>block.Data\<close>.
\<close>

record block =
  Multihash :: string
  Data :: string

definition Key :: "block \<Rightarrow> key" where
  "Key b = Multihash b"

text \<open>One item of a query's result channel (\<open>dsq.Result\<close>): an entry key, or an error.\<close>

record q_result =
  r_Key :: dskey
  r_Error :: "ds_error option"

record query =
  Prefix :: string
  KeysOnly :: bool

text \<open>
  The \<open>ds.Datastore\<close> interface lives in the vendored go-datastore package. It is a
  parameter of the blockstore: a record of the methods the blockstore calls, each over the
  store's own state \<open>'s\<close>. \<open>Has\<close> returns the Go pair \<open>(exists, err)\<close>.
\<close>

record 's datastore =
  ds_Has :: "'s \<Rightarrow> dskey \<Rightarrow> bool \<times> ds_error option"
  ds_Put :: "'s \<Rightarrow> dskey \<Rightarrow> ds_value \<Rightarrow> ds_error option \<times> 's"
  ds_Query :: "'s \<Rightarrow> query \<Rightarrow> ds_error + q_result list"

text \<open>
  The helpers of other packages that the blockstore calls: \<open>u.Key.DsKey\<close>,
  \<open>ds.NewKey\<close>, \<open>u.KeyFromDsKey\<close> and \<open>mh.Cast\<close> (\<open>Some\<close> the multihash when its
  error is nil).
\<close>

record bs_env =
  DsKey :: "key \<Rightarrow> dskey"
  NewKey :: "string \<Rightarrow> dskey"
  KeyFromDsKey :: "dskey \<Rightarrow> key"
  Cast :: "string \<Rightarrow> string option"

definition BlockPrefix :: "bs_env \<Rightarrow> dskey" where
  "BlockPrefix env = NewKey env ''blocks''"

text \<open>
  \<open>Put\<close>, lines 66-74. The guard is the source's: \<open>err != nil && exists\<close>.
  The result is the returned error and the datastore's state after the call.
\<close>

definition Put :: "bs_env \<Rightarrow> 's datastore \<Rightarrow> 's \<Rightarrow> block \<Rightarrow> ds_error option \<times> 's" where
  "Put env d s b =
     (let k = DsKey env (Key b);
          (exists, err) = ds_Has d s k
      in if err \<noteq> None \<and> exists then (None, s)
         else ds_Put d s k (Bytes (Data b)))"

definition Has :: "bs_env \<Rightarrow> 's datastore \<Rightarrow> 's \<Rightarrow> key \<Rightarrow> bool \<times> ds_error option" where
  "Has env d s k = ds_Has d s (DsKey env k)"

text \<open>
  \<open>AllKeysChan\<close>, lines 88-152. The producer goroutine runs two \<open>select\<close> statements
  per item, one inside \<open>get\<close> and one at the send. Which branch a \<open>select\<close> takes when
  the context is done is the scheduler's choice, so the model takes a schedule: one
  boolean per \<open>select\<close>, \<open>True\<close> when the \<open>ctx.Done()\<close> branch is taken; an exhausted
  schedule means the context is never cancelled.
\<close>

definition sched_head :: "bool list \<Rightarrow> bool" where
  "sched_head sched = (case sched of [] \<Rightarrow> False | d # _ \<Rightarrow> d)"

text \<open>
  The closure \<open>get\<close>, lines 100-125, returns \<open>(k, ok)\<close>. Its argument \<open>recv\<close> is what
  \<open>res.Next()\<close> delivers: \<open>None\<close> when the channel is closed (\<open>more = false\<close>).
\<close>

definition get :: "bs_env \<Rightarrow> bool \<Rightarrow> q_result option \<Rightarrow> key \<times> bool" where
  "get env done recv =
     (if done then ([], False)
      else case recv of
             None \<Rightarrow> ([], False)
           | Some e \<Rightarrow>
               if r_Error e \<noteq> None then ([], False)
               else let k = KeyFromDsKey env (NewKey env (r_Key e))
                    in (case Cast env k of None \<Rightarrow> ([], True) | Some _ \<Rightarrow> (k, True)))"

text \<open>
  The loop of the goroutine, lines 134-148; the result is the sequence of keys the consumer
  receives before the channel is closed, when it keeps receiving. On an empty result list \<open>get\<close> returns
  \<open>ok = false\<close> on either branch of its \<open>select\<close>.
\<close>

fun producer :: "bs_env \<Rightarrow> bool list \<Rightarrow> q_result list \<Rightarrow> key list" where
  "producer env sched [] = []"
| "producer env sched (e # rest) =
     (let (k, ok) = get env (sched_head sched) (Some e)
      in if \<not> ok then []
         else if k = [] then producer env (tl sched) rest
         else if sched_head (tl sched) then []
         else k # producer env (tl (tl sched)) rest)"

definition AllKeysChan ::
  "bs_env \<Rightarrow> 's datastore \<Rightarrow> 's \<Rightarrow> bool list \<Rightarrow> ds_error + key list" where
  "AllKeysChan env d s sched =
     (let q = \<lparr>Prefix = BlockPrefix env, KeysOnly = True\<rparr>
      in case ds_Query d s q of
           Inl err \<Rightarrow> Inl err
         | Inr res \<Rightarrow> Inr (producer env sched res))"

subsection \<open>A map datastore that logs its writes\<close>

text \<open>
  An instance of the interface in the manner of go-datastore's \<open>MapDatastore\<close>, with a log
  of the \<open>Put\<close> calls it receives. It is used to run the blockstore on concrete inputs.
\<close>

record mapds =
  contents :: "(dskey \<times> ds_value) list"
  put_calls :: "(dskey \<times> ds_value) list"

definition MapDatastore :: "mapds datastore" where
  "MapDatastore =
     \<lparr>ds_Has = (\<lambda>s k. (map_of (contents s) k \<noteq> None, None)),
      ds_Put = (\<lambda>s k v. (None, s\<lparr>contents := AList.update k v (contents s),
                                  put_calls := put_calls s @ [(k, v)]\<rparr>)),
      ds_Query = (\<lambda>s q. Inr (map (\<lambda>kv. \<lparr>r_Key = fst kv, r_Error = None\<rparr>)
                    (filter (\<lambda>kv. take (length (Prefix q)) (fst kv) = Prefix q) (contents s))))\<rparr>"

text \<open>
  Helper functions for concrete runs: a key is the last component of a datastore key, and
  a byte string passes \<open>sample_Cast\<close> when it is a one-byte code, a one-byte length and a
  digest of that length.
\<close>

definition base_namespace :: "dskey \<Rightarrow> key" where
  "base_namespace k = rev (takeWhile (\<lambda>c. c \<noteq> CHR ''/'') (rev k))"

definition sample_Cast :: "string \<Rightarrow> string option" where
  "sample_Cast s =
     (case s of
        c # l # dg \<Rightarrow> if dg \<noteq> [] \<and> int (length dg) = of_char l then Some s else None
      | _ \<Rightarrow> None)"

definition sample_env :: bs_env where
  "sample_env =
     \<lparr>DsKey = (\<lambda>k. CHR ''/'' # k),
      NewKey = (\<lambda>s. if take 1 s = ''/'' then s else CHR ''/'' # s),
      KeyFromDsKey = base_namespace,
      Cast = sample_Cast\<rparr>"

definition foo_block :: block where
  "foo_block = \<lparr>Multihash = [CHR 0x11, CHR 0x03, CHR ''f'', CHR ''o'', CHR ''o''], Data = ''foo''\<rparr>"

definition store_with_foo :: mapds where
  "store_with_foo =
     \<lparr>contents = [(DsKey sample_env (Key foo_block), Bytes ''foo'')], put_calls = []\<rparr>"

definition store_with_stray_key :: mapds where
  "store_with_stray_key =
     \<lparr>contents = [(''/blocks/'' @ [CHR 0x11, CHR 0x01, CHR ''W''], Bytes ''W''),
                  (''/blocks/stray'', Bytes ''x''),
                  (''/blocks/'' @ [CHR 0x11, CHR 0x01, CHR ''E''], Bytes ''E'')],
      put_calls = []\<rparr>"

section \<open>Exchange message (exchange/bitswap/message)\<close>

text \<open>
  The package's tests (\<open>message_test.go\<close>) are available; the implementation file
  \<open>message.go\<close>, the generated protobuf package \<open>pb\<close> and the package \<open>blocks\<close> are
  not. The definitions of this section follow the specification.
\<close>

text \<open>
  Modelled from the spec: a want-list entry, "\<open>(Key, Priority: signed integer, Cancel:
  bool)\<close>".
\<close>

record Entry =
  Entry_Key :: key
  Priority :: int
  Cancel :: bool

text \<open>
  Modelled from the spec: the in-memory message (the struct behind \<open>New()\<close> in
  message.go), "a set of WantlistEntry (unique by Key) and a list of Block payloads". The
  want-list is a table from Key to priority and cancel flag whose keys are distinct by
  type; the blocks are a plain list, since "the wire format and in-memory representation
  impose no implicit deduplication".
\<close>

record message =
  wantlist :: "(key, int \<times> bool) alist"
  blocks :: "block list"

text \<open>Modelled from the spec: \<open>New()\<close> of message.go, the empty message.\<close>

definition New :: message where
  "New = \<lparr>wantlist = DAList.empty, blocks = []\<rparr>"

text \<open>
  Modelled from the spec: the upsert behind \<open>AddEntry\<close> in message.go; "adding an entry
  with an existing Key overwrites priority/cancel rather than duplicating".
\<close>

definition addEntry :: "message \<Rightarrow> key \<Rightarrow> int \<Rightarrow> bool \<Rightarrow> message" where
  "addEntry m k priority cancel =
     m\<lparr>wantlist := DAList.update k (priority, cancel) (wantlist m)\<rparr>"

text \<open>
  Modelled from the spec: \<open>AddEntry(key, priority)\<close> of message.go, an upsert that
  declares interest (the cancel flag is clear).
\<close>

definition AddEntry :: "message \<Rightarrow> key \<Rightarrow> int \<Rightarrow> message" where
  "AddEntry m k priority = addEntry m k priority False"

text \<open>
  Modelled from the spec: \<open>AddBlock(block)\<close> of message.go; it "appends to the block
  list", and checking membership by Key first is left to the caller.
\<close>

definition AddBlock :: "message \<Rightarrow> block \<Rightarrow> message" where
  "AddBlock m b = m\<lparr>blocks := blocks m @ [b]\<rparr>"

text \<open>Modelled from the spec: the accessor \<open>Wantlist()\<close> of message.go.\<close>

definition Wantlist :: "message \<Rightarrow> Entry list" where
  "Wantlist m =
     map (\<lambda>(k, p, c). \<lparr>Entry_Key = k, Priority = p, Cancel = c\<rparr>)
       (DAList.impl_of (wantlist m))"

text \<open>Modelled from the spec: the accessor \<open>Blocks()\<close> of message.go.\<close>

definition Blocks :: "message \<Rightarrow> block list" where
  "Blocks m = blocks m"

text \<open>
  Modelled from the spec: the structured form of a message (the generated type
  \<open>pb.Message\<close>), after the wire schema
  \<open>Entry := { key: bytes, priority: int32, cancel: bool }\<close> and
  \<open>Message := { wantlist: repeated Entry, blocks: repeated bytes }\<close>.
\<close>

record pb_Entry =
  pb_Block :: string
  pb_Priority :: "32 word"
  pb_Cancel :: bool

text \<open>Modelled from the spec: \<open>pb.Message\<close>, the want-list section and the blocks section.\<close>

record pb_Message =
  pb_Entries :: "pb_Entry list"
  pb_Blocks :: "string list"

text \<open>
  Modelled from the spec: \<open>ToProto()\<close> of message.go, the structured copy of a message.
  A priority is narrowed to the wire's \<open>int32\<close>; a block is exported as its payload
  alone.
\<close>

definition ToProto :: "message \<Rightarrow> pb_Message" where
  "ToProto m =
     \<lparr>pb_Entries = map (\<lambda>e. \<lparr>pb_Block = Entry_Key e,
                               pb_Priority = word_of_int (Priority e),
                               pb_Cancel = Cancel e\<rparr>) (Wantlist m),
      pb_Blocks = map Data (Blocks m)\<rparr>"

text \<open>
  Modelled from the spec: \<open>blocks.NewBlock\<close> of the package \<open>blocks\<close>; the Key of a
  block is the hash of its bytes. The hash function is a parameter.
\<close>

definition NewBlock :: "(string \<Rightarrow> string) \<Rightarrow> string \<Rightarrow> block" where
  "NewBlock hash d = \<lparr>Multihash = hash d, Data = d\<rparr>"

text \<open>
  Modelled from the spec: \<open>newMessageFromProto\<close> of message.go, the inverse
  constructor; "the receiver recomputes [the Key] by hashing the received bytes".
\<close>

definition newMessageFromProto :: "(string \<Rightarrow> string) \<Rightarrow> pb_Message \<Rightarrow> message" where
  "newMessageFromProto hash pbm =
     (let m1 = fold (\<lambda>e m. addEntry m (pb_Block e) (sint (pb_Priority e)) (pb_Cancel e))
                 (pb_Entries pbm) New
      in fold (\<lambda>d m. AddBlock m (NewBlock hash d)) (pb_Blocks pbm) m1)"

text \<open>Modelled from the spec: the two errors of \<open>ToNet\<close> and \<open>FromNet\<close>.\<close>

datatype net_error = WriteError | DecodeError

text \<open>
  Modelled from the spec: the streaming transport of \<open>ToNet\<close> and \<open>FromNet\<close>. The
  length-prefixed binary encoding is not described further than its schema, so a
  well-formed frame is carried as the structured message it encodes, and anything else
  on the stream as \<open>Malformed\<close>.
\<close>

datatype frame = Frame pb_Message | Malformed

text \<open>
  Modelled from the spec: a reader or writer over the stream; a write fails when the
  transport has failed.
\<close>

record transport =
  writable :: bool
  stream :: "frame list"

text \<open>
  Modelled from the spec: \<open>ToNet(writer)\<close> of message.go; writes one frame, "fails with
  WriteError on transport failure".
\<close>

definition ToNet :: "message \<Rightarrow> transport \<Rightarrow> net_error + transport" where
  "ToNet m t =
     (if writable t then Inr (t\<lparr>stream := stream t @ [Frame (ToProto m)]\<rparr>)
      else Inl WriteError)"

text \<open>
  Modelled from the spec: \<open>FromNet(reader)\<close> of message.go; reads one frame, "fails with
  DecodeError on malformed framing or an invalid structured payload".
\<close>

definition FromNet ::
  "(string \<Rightarrow> string) \<Rightarrow> transport \<Rightarrow> net_error + message \<times> transport" where
  "FromNet hash t =
     (case stream t of
        Frame pbm # rest \<Rightarrow> Inr (newMessageFromProto hash pbm, t\<lparr>stream := rest\<rparr>)
      | _ \<Rightarrow> Inl DecodeError)"

text \<open>An in-memory buffer, as the \<open>bytes.Buffer\<close> of the tests.\<close>

definition empty_buffer :: transport where
  "empty_buffer = \<lparr>writable = True, stream = []\<rparr>"

text \<open>A message built only through \<open>AddEntry\<close> and \<open>AddBlock\<close>, starting from \<open>New()\<close>.\<close>

datatype build_op = OpAddEntry key int | OpAddBlock block

fun apply_op :: "message \<Rightarrow> build_op \<Rightarrow> message" where
  "apply_op m (OpAddEntry k p) = AddEntry m k p"
| "apply_op m (OpAddBlock b) = AddBlock m b"

definition build :: "build_op list \<Rightarrow> message" where
  "build ops = foldl apply_op New ops"

text \<open>\<open>wantlistContains\<close> of message_test.go, lines 155-162.\<close>

definition wantlistContains :: "pb_Message \<Rightarrow> string \<Rightarrow> bool" where
  "wantlistContains pbm x = list_ex (\<lambda>e. pb_Block e = x) (pb_Entries pbm)"

subsection \<open>Messages and snapshots as objects\<close>

text \<open>
  Modelled from the spec: a message is a mutable object and \<open>ToProto()\<close> returns a new
  object, "an explicit deep copy of a plain data structure at export time". The heap
  holds both kinds of object, an address is an index into it, allocation appends, and
  \<open>AddEntry\<close> and \<open>AddBlock\<close> update the message's own cell in place.
\<close>

datatype cell = MsgCell message | ProtoCell pb_Message

type_synonym heap = "cell list"

definition deref :: "heap \<Rightarrow> nat \<Rightarrow> cell option" where
  "deref h a = (if a < length h then Some (h ! a) else None)"

text \<open>Modelled from the spec: \<open>New()\<close>, allocating the message.\<close>

definition heap_New :: "heap \<Rightarrow> nat \<times> heap" where
  "heap_New h = (length h, h @ [MsgCell New])"

text \<open>Modelled from the spec: \<open>m.ToProto()\<close> for the message at address \<open>a\<close>.\<close>

definition heap_ToProto :: "heap \<Rightarrow> nat \<Rightarrow> (nat \<times> heap) option" where
  "heap_ToProto h a =
     (case deref h a of
        Some (MsgCell m) \<Rightarrow> Some (length h, h @ [ProtoCell (ToProto m)])
      | _ \<Rightarrow> None)"

text \<open>
  Modelled from the spec: \<open>m.AddEntry(k, p)\<close> or \<open>m.AddBlock(b)\<close> for the message at
  address \<open>a\<close>.
\<close>

definition heap_apply :: "heap \<Rightarrow> nat \<Rightarrow> build_op \<Rightarrow> heap option" where
  "heap_apply h a op =
     (case deref h a of
        Some (MsgCell m) \<Rightarrow> Some (h[a := MsgCell (apply_op m op)])
      | _ \<Rightarrow> None)"

fun heap_apply_all :: "heap \<Rightarrow> nat \<Rightarrow> build_op list \<Rightarrow> heap option" where
  "heap_apply_all h a [] = Some h"
| "heap_apply_all h a (op # ops) =
     (case heap_apply h a op of None \<Rightarrow> None | Some h' \<Rightarrow> heap_apply_all h' a ops)"

text \<open>
  The Block invariant of the data model, \<open>Key == hash(Block.Data)\<close>, for the blocks a
  message holds.
\<close>

definition hashed :: "(string \<Rightarrow> string) \<Rightarrow> message \<Rightarrow> bool" where
  "hashed hash m = (\<forall>b \<in> set (blocks m). Key b = hash (Data b))"

text \<open>A hash function and a sequence of calls for concrete runs.\<close>

definition sample_hash :: "string \<Rightarrow> string" where
  "sample_hash d = CHR 0x11 # char_of (length d) # d"

definition sample_ops :: "build_op list" where
  "sample_ops =
     [OpAddEntry ''M'' 1, OpAddEntry ''B'' 1, OpAddBlock (NewBlock sample_hash ''W''),
      OpAddBlock (NewBlock sample_hash ''E''), OpAddEntry ''M'' 2]"

section \<open>File-system repository (repo/fsrepo/fsrepo.go)\<close>

text \<open>
  The errors of the package: its three error variables, the formatted version error with
  the version found and the version expected, the literal errors of \<open>Close\<close> and
  \<open>openDatastore\<close>, the error of \<open>lockfile.Lock\<close>, and any other error that a
  collaborator returns and the package passes on unchanged. The two errors of the key-path
  helpers carry the path walked so far.
\<close>

datatype repo_error =
    ErrNoRepo
  | ErrNoVersion
  | ErrOldRepo
  | ErrIncorrectRepoFmt string string
  | ErrRepoClosed
  | ErrUnableLevelDB
  | ErrUnableFlatfs
  | ErrLockHeld string
  | ErrKeyNotMap string
  | ErrKeyNoAttributes string
  | ErrOther string

definition RepoVersion :: string where
  "RepoVersion = ''2''"

definition leveldbDirectory :: string where
  "leveldbDirectory = ''datastore''"

definition flatfsDirectory :: string where
  "flatfsDirectory = ''blocks''"

text \<open>
  What \<open>mfsr.RepoPath(p).Version()\<close> returns: an error for which \<open>os.IsNotExist\<close>
  holds, another error, or the text of the version marker.
\<close>

datatype version_read = VersionNotExist | VersionUnreadable string | VersionIs string

text \<open>
  A value of the persisted configuration (\<open>interface{}\<close>) and the generic map
  \<open>map[string]interface{}\<close>, an association list whose first binding of a key counts.
\<close>

datatype cfg_value = VString string | VInt int | VBool bool | VMap "(string \<times> cfg_value) list"

type_synonym cfg_map = "(string \<times> cfg_value) list"

text \<open>
  The functions of other packages that the repository calls are parameters, one field
  each; \<open>'c\<close> is the type \<open>config.Config\<close>. A datastore constructor is carried by
  whether it succeeds, since \<open>openDatastore\<close> drops the error it returns.
  \<open>read_fault\<close> and \<open>write_fault\<close> say for which files the serializer fails.
\<close>

record 'c fs_env =
  path_Clean :: "string \<Rightarrow> string"
  path_Join :: "string \<Rightarrow> string \<Rightarrow> string"
  TildeExpansion :: "string \<Rightarrow> repo_error + string"
  config_Filename :: "string \<Rightarrow> repo_error + string"
  FileExists :: "string \<Rightarrow> bool"
  Version :: "string \<Rightarrow> version_read"
  dir_Writable :: "string \<Rightarrow> repo_error option"
  serialize_Load :: "string \<Rightarrow> repo_error + 'c"
  levelds_NewDatastore :: "string \<Rightarrow> bool"
  flatfs_New :: "string \<Rightarrow> nat \<Rightarrow> bool"
  strconv_Atoi :: "string \<Rightarrow> int option"
  read_fault :: "string \<Rightarrow> repo_error option"
  write_fault :: "string \<Rightarrow> repo_error option"
  config_FromMap :: "cfg_map \<Rightarrow> repo_error + 'c"
  config_ToMap :: "'c \<Rightarrow> repo_error + cfg_map"

text \<open>
  The state that the operations change: who holds the lock file of each repository path,
  the configuration files, and the sequence of effects performed so far.
\<close>

datatype lock_state = Free | HeldByUs | HeldByOther

datatype event =
    EvLock string
  | EvUnlock string
  | EvLoadConfig string
  | EvOpenLevelDB string
  | EvOpenFlatfs string
  | EvConfigureLog string

record world =
  lock_of :: "string \<Rightarrow> lock_state"
  trace :: "event list"
  cfg_file :: "string \<Rightarrow> cfg_map option"

definition emit :: "event \<Rightarrow> world \<Rightarrow> world" where
  "emit ev w = w\<lparr>trace := trace w @ [ev]\<rparr>"

text \<open>
  Modelled from the spec: \<open>lockfile.Lock\<close> of repo/fsrepo/lock, which is not among the
  sources. It takes the exclusive lock of the path, and fails when the lock is held
  (\<open>LockHeld\<close>).
\<close>

definition lockfile_Lock :: "world \<Rightarrow> string \<Rightarrow> repo_error + world" where
  "lockfile_Lock w p =
     (case lock_of w p of
        Free \<Rightarrow> Inr (emit (EvLock p) (w\<lparr>lock_of := (lock_of w)(p := HeldByUs)\<rparr>))
      | _ \<Rightarrow> Inl (ErrLockHeld p))"

text \<open>
  Modelled from the spec: \<open>Close\<close> of the handle that \<open>lockfile.Lock\<close> returns;
  it releases the lock.
\<close>

definition lockfile_Close :: "world \<Rightarrow> string \<Rightarrow> world" where
  "lockfile_Close w p = emit (EvUnlock p) (w\<lparr>lock_of := (lock_of w)(p := Free)\<rparr>)"

text \<open>
  The struct \<open>FSRepo\<close>, lines 76-88. The lock handle is kept as the path it locks, the
  mount as its table of prefixes and directories, the leveldb handle as its directory.
\<close>

record 'c FSRepo =
  closed :: bool
  path :: string
  lockfile :: "string option"
  config :: "'c option"
  ds :: "(string \<times> string) list"
  leveldbDS :: "string option"

definition newFSRepo :: "'c fs_env \<Rightarrow> string \<Rightarrow> repo_error + 'c FSRepo" where
  "newFSRepo env rpath =
     (case TildeExpansion env (path_Clean env rpath) of
        Inl err \<Rightarrow> Inl err
      | Inr expPath \<Rightarrow>
          Inr \<lparr>closed = False, path = expPath, lockfile = None, config = None, ds = [],
               leveldbDS = None\<rparr>)"

definition configIsInitialized :: "'c fs_env \<Rightarrow> string \<Rightarrow> bool" where
  "configIsInitialized env p =
     (case config_Filename env p of
        Inl err \<Rightarrow> False
      | Inr configFilename \<Rightarrow> if \<not> FileExists env configFilename then False else True)"

definition isInitializedUnsynced :: "'c fs_env \<Rightarrow> string \<Rightarrow> bool" where
  "isInitializedUnsynced env repoPath =
     (if \<not> configIsInitialized env repoPath then False
      else if \<not> FileExists env (path_Join env repoPath leveldbDirectory) then False
      else True)"

text \<open>
  \<open>strings.Replace(s, old, new, 1)\<close> of the Go library: the first occurrence of
  \<open>old\<close> is replaced.
\<close>

fun strings_Replace_first :: "string \<Rightarrow> string \<Rightarrow> string \<Rightarrow> string" where
  "strings_Replace_first [] old new = (if old = [] then new else [])"
| "strings_Replace_first (c # cs) old new =
     (if take (length old) (c # cs) = old then new @ drop (length old) (c # cs)
      else c # strings_Replace_first cs old new)"

definition checkInitialized :: "'c fs_env \<Rightarrow> string \<Rightarrow> repo_error option" where
  "checkInitialized env p =
     (if \<not> isInitializedUnsynced env p then
        (let alt = strings_Replace_first p ''.ipfs'' ''.go-ipfs''
         in if isInitializedUnsynced env alt then Some ErrOldRepo else Some ErrNoRepo)
      else None)"

text \<open>
  \<open>openConfig\<close> and \<open>openDatastore\<close>, lines 285-336, return the repository with the
  fields they set.
\<close>

definition openConfig ::
  "'c fs_env \<Rightarrow> 'c FSRepo \<Rightarrow> world \<Rightarrow> (repo_error + 'c FSRepo) \<times> world" where
  "openConfig env r w =
     (case config_Filename env (path r) of
        Inl err \<Rightarrow> (Inl err, w)
      | Inr configFilename \<Rightarrow>
          (case serialize_Load env configFilename of
             Inl err \<Rightarrow> (Inl err, emit (EvLoadConfig configFilename) w)
           | Inr conf \<Rightarrow> (Inr (r\<lparr>config := Some conf\<rparr>), emit (EvLoadConfig configFilename) w)))"

definition openDatastore ::
  "'c fs_env \<Rightarrow> 'c FSRepo \<Rightarrow> world \<Rightarrow> (repo_error + 'c FSRepo) \<times> world" where
  "openDatastore env r w =
     (let leveldbPath = path_Join env (path r) leveldbDirectory;
          w1 = emit (EvOpenLevelDB leveldbPath) w
      in if \<not> levelds_NewDatastore env leveldbPath then (Inl ErrUnableLevelDB, w1)
         else
           let r1 = r\<lparr>leveldbDS := Some leveldbPath\<rparr>;
               flatfsPath = path_Join env (path r) flatfsDirectory;
               w2 = emit (EvOpenFlatfs flatfsPath) w1
           in if \<not> flatfs_New env flatfsPath 4 then (Inl ErrUnableFlatfs, w2)
              else (Inr (r1\<lparr>ds := [(''/blocks'', flatfsPath), (''/'', leveldbPath)]\<rparr>), w2))"

text \<open>
  \<open>open\<close>, lines 101-158, in two parts: \<open>open_locked\<close> is the code after the lock is
  taken (lines 127-157), and \<open>open_repo\<close> is the whole function with its deferred
  function, which closes the lock file unless \<open>keepLocked\<close> was set, that is, unless
  line 156 was reached. The exported \<open>Open\<close> passes \<open>open\<close> to \<open>onlyOne.Open\<close> of the
  package repo, which is not among the sources. The package mutex \<open>packageLock\<close> is held
  throughout and calls are sequential here.
\<close>

definition open_locked ::
  "'c fs_env \<Rightarrow> 'c FSRepo \<Rightarrow> world \<Rightarrow> (repo_error + 'c FSRepo) \<times> world" where
  "open_locked env r w =
     (case Version env (path r) of
        VersionNotExist \<Rightarrow> (Inl ErrNoVersion, w)
      | VersionUnreadable msg \<Rightarrow> (Inl (ErrOther msg), w)
      | VersionIs ver \<Rightarrow>
          if ver \<noteq> RepoVersion then (Inl (ErrIncorrectRepoFmt ver RepoVersion), w)
          else
            (case dir_Writable env (path r) of
               Some err \<Rightarrow> (Inl err, w)
             | None \<Rightarrow>
                 (case openConfig env r w of
                    (Inl err, w1) \<Rightarrow> (Inl err, w1)
                  | (Inr r1, w1) \<Rightarrow>
                      (case openDatastore env r1 w1 of
                         (Inl err, w2) \<Rightarrow> (Inl err, w2)
                       | (Inr r2, w2) \<Rightarrow> (Inr r2, emit (EvConfigureLog (path r2)) w2)))))"

definition open_repo ::
  "'c fs_env \<Rightarrow> world \<Rightarrow> string \<Rightarrow> (repo_error + 'c FSRepo) \<times> world" where
  "open_repo env w repoPath =
     (case newFSRepo env repoPath of
        Inl err \<Rightarrow> (Inl err, w)
      | Inr r \<Rightarrow>
          (case checkInitialized env (path r) of
             Some err \<Rightarrow> (Inl err, w)
           | None \<Rightarrow>
               (case lockfile_Lock w (path r) of
                  Inl err \<Rightarrow> (Inl err, w)
                | Inr w1 \<Rightarrow>
                    (case open_locked env (r\<lparr>lockfile := Some (path r)\<rparr>) w1 of
                       (Inl err, w2) \<Rightarrow> (Inl err, lockfile_Close w2 (path r))
                     | (Inr r', w2) \<Rightarrow> (Inr r', w2)))))"

text \<open>
  Modelled from the spec: \<open>serialize.ReadConfigFile\<close> of repo/fsrepo/serialize, which is
  not among the sources: "a config serializer that loads/saves a generic key-valued
  structure". It fails on a fault and on a missing file.
\<close>

definition ReadConfigFile :: "'c fs_env \<Rightarrow> world \<Rightarrow> string \<Rightarrow> repo_error + cfg_map" where
  "ReadConfigFile env w filename =
     (case read_fault env filename of
        Some err \<Rightarrow> Inl err
      | None \<Rightarrow>
          (case cfg_file w filename of
             None \<Rightarrow> Inl (ErrOther ''config file does not exist'')
           | Some m \<Rightarrow> Inr m))"

text \<open>
  Modelled from the spec: \<open>serialize.WriteConfigFile\<close> of repo/fsrepo/serialize, which is
  not among the sources; it replaces the content of the file, or fails on a fault.
\<close>

definition WriteConfigFile :: "'c fs_env \<Rightarrow> world \<Rightarrow> string \<Rightarrow> cfg_map \<Rightarrow> repo_error + world" where
  "WriteConfigFile env w filename m =
     (case write_fault env filename of
        Some err \<Rightarrow> Inl err
      | None \<Rightarrow> Inr (w\<lparr>cfg_file := (cfg_file w)(filename := Some m)\<rparr>))"

text \<open>
  The loop of \<open>setConfigUnsynced\<close>, lines 415-417: every top-level binding of \<open>m\<close>
  is written over \<open>mapconf\<close>. A Go map binds a key once and is ranged over in no fixed
  order; here the bindings are written from the last to the first, so that the first
  binding of a key in \<open>m\<close> is the one that stays, as in every lookup.
\<close>

definition overlay :: "cfg_map \<Rightarrow> cfg_map \<Rightarrow> cfg_map" where
  "overlay mapconf m = foldr (\<lambda>kv acc. AList.update (fst kv) (snd kv) acc) m mapconf"

text \<open>
  \<open>strings.Split(s, sep)\<close> of the Go library for a separator of one character, and
  \<open>strings.Join\<close>.
\<close>

fun strings_Split :: "string \<Rightarrow> char \<Rightarrow> string list" where
  "strings_Split [] sep = [[]]"
| "strings_Split (c # cs) sep =
     (if c = sep then [] # strings_Split cs sep
      else case strings_Split cs sep of
             [] \<Rightarrow> [[c]]
           | part # parts \<Rightarrow> (c # part) # parts)"

fun strings_Join :: "string list \<Rightarrow> string \<Rightarrow> string" where
  "strings_Join [] sep = []"
| "strings_Join [part] sep = part"
| "strings_Join (part # parts) sep = part @ sep @ strings_Join parts sep"

text \<open>
  Modelled from the spec: \<open>common.MapGetKV\<close> of repo/common, which is not among the
  sources. A configuration key is a path ("config key path"): its components, separated
  by dots, are looked up one after the other in the nested maps. \<open>sofar\<close> holds the
  components already walked.
\<close>

fun getKV_walk :: "cfg_value \<Rightarrow> string list \<Rightarrow> string list \<Rightarrow> repo_error + cfg_value" where
  "getKV_walk cursor sofar [] = Inr cursor"
| "getKV_walk cursor sofar (part # parts) =
     (case cursor of
        VMap mcursor \<Rightarrow>
          (case map_of mcursor part of
             None \<Rightarrow> Inl (ErrKeyNoAttributes (strings_Join sofar ''.''))
           | Some child \<Rightarrow> getKV_walk child (sofar @ [part]) parts)
      | _ \<Rightarrow> Inl (ErrKeyNotMap (strings_Join sofar ''.'')))"

definition MapGetKV :: "cfg_map \<Rightarrow> string \<Rightarrow> repo_error + cfg_value" where
  "MapGetKV v k = getKV_walk (VMap v) [] (strings_Split k CHR ''.'')"

text \<open>
  Modelled from the spec: \<open>common.MapSetKV\<close> of repo/common, which is not among the
  sources. It walks the components of the key path, creates an empty map for a component
  that is missing, binds the last component to the value, and fails when a component on
  the way is bound to something that is not a map.
\<close>

fun setKV_walk ::
  "cfg_value \<Rightarrow> string list \<Rightarrow> string list \<Rightarrow> cfg_value \<Rightarrow> repo_error + cfg_value" where
  "setKV_walk cursor sofar [] val = Inr cursor"
| "setKV_walk cursor sofar [part] val =
     (case cursor of
        VMap mcursor \<Rightarrow> Inr (VMap (AList.update part val mcursor))
      | _ \<Rightarrow> Inl (ErrKeyNotMap (strings_Join sofar ''.'')))"
| "setKV_walk cursor sofar (part # parts) val =
     (case cursor of
        VMap mcursor \<Rightarrow>
          (let child = (case map_of mcursor part of None \<Rightarrow> VMap [] | Some c \<Rightarrow> c)
           in case setKV_walk child (sofar @ [part]) parts val of
                Inl err \<Rightarrow> Inl err
              | Inr child' \<Rightarrow> Inr (VMap (AList.update part child' mcursor)))
      | _ \<Rightarrow> Inl (ErrKeyNotMap (strings_Join sofar ''.'')))"

definition MapSetKV :: "cfg_map \<Rightarrow> string \<Rightarrow> cfg_value \<Rightarrow> repo_error + cfg_map" where
  "MapSetKV v k val =
     (case setKV_walk (VMap v) [] (strings_Split k CHR ''.'') val of
        Inl err \<Rightarrow> Inl err
      | Inr (VMap v') \<Rightarrow> Inr v'
      | Inr _ \<Rightarrow> Inr v)"

definition setConfigUnsynced ::
  "'c fs_env \<Rightarrow> 'c FSRepo \<Rightarrow> world \<Rightarrow> 'c \<Rightarrow> repo_error option \<times> 'c FSRepo \<times> world" where
  "setConfigUnsynced env r w updated =
     (case config_Filename env (path r) of
        Inl err \<Rightarrow> (Some err, r, w)
      | Inr configFilename \<Rightarrow>
          (case ReadConfigFile env w configFilename of
             Inl err \<Rightarrow> (Some err, r, w)
           | Inr mapconf \<Rightarrow>
               (case config_ToMap env updated of
                  Inl err \<Rightarrow> (Some err, r, w)
                | Inr m \<Rightarrow>
                    (case WriteConfigFile env w configFilename (overlay mapconf m) of
                       Inl err \<Rightarrow> (Some err, r, w)
                     | Inr w' \<Rightarrow> (None, r\<lparr>config := Some updated\<rparr>, w')))))"

definition GetConfigKey ::
  "'c fs_env \<Rightarrow> 'c FSRepo \<Rightarrow> world \<Rightarrow> string \<Rightarrow> repo_error + cfg_value" where
  "GetConfigKey env r w k =
     (if closed r then Inl ErrRepoClosed
      else case config_Filename env (path r) of
             Inl err \<Rightarrow> Inl err
           | Inr filename \<Rightarrow>
               (case ReadConfigFile env w filename of
                  Inl err \<Rightarrow> Inl err
                | Inr cfg \<Rightarrow> MapGetKV cfg k))"

text \<open>
  The type switch of \<open>SetConfigKey\<close>, lines 468-473: a string that \<open>strconv.Atoi\<close>
  accepts is replaced by the integer.
\<close>

definition convert_value :: "'c fs_env \<Rightarrow> cfg_value \<Rightarrow> cfg_value" where
  "convert_value env val =
     (case val of
        VString v \<Rightarrow> (case strconv_Atoi env v of Some i \<Rightarrow> VInt i | None \<Rightarrow> val)
      | _ \<Rightarrow> val)"

definition SetConfigKey ::
  "'c fs_env \<Rightarrow> 'c FSRepo \<Rightarrow> world \<Rightarrow> string \<Rightarrow> cfg_value
     \<Rightarrow> repo_error option \<times> 'c FSRepo \<times> world" where
  "SetConfigKey env r w k val =
     (if closed r then (Some ErrRepoClosed, r, w)
      else case config_Filename env (path r) of
             Inl err \<Rightarrow> (Some err, r, w)
           | Inr filename \<Rightarrow>
               (let val' = convert_value env val
                in case ReadConfigFile env w filename of
                     Inl err \<Rightarrow> (Some err, r, w)
                   | Inr mapconf \<Rightarrow>
                       (case MapSetKV mapconf k val' of
                          Inl err \<Rightarrow> (Some err, r, w)
                        | Inr mapconf' \<Rightarrow>
                            (case config_FromMap env mapconf' of
                               Inl err \<Rightarrow> (Some err, r, w)
                             | Inr conf \<Rightarrow>
                                 (case WriteConfigFile env w filename mapconf' of
                                    Inl err \<Rightarrow> (Some err, r, w)
                                  | Inr w1 \<Rightarrow> setConfigUnsynced env r w1 conf)))))"

text \<open>
  For concrete runs: \<open>strconv.Atoi\<close> on a 64-bit platform (an optional sign, decimal
  digits, a value that fits \<open>int\<close>), a file system with one repository of version 1
  at \<open>/home/u/.ipfs\<close> and one left at an old location \<open>/srv/.go-ipfs\<close>, and a
  configuration with the two sections that the sources read: \<open>Addresses\<close>, whose
  fields \<open>API\<close> and \<open>Gateway\<close> are strings (\<open>cfg.Addresses.API\<close>), and \<open>Log\<close>,
  whose fields \<open>MaxSizeMB\<close>, \<open>MaxBackups\<close> and \<open>MaxAgeDays\<close> are numbers
  (\<open>c.Log.MaxSizeMB\<close>). A \<open>Config\<close> is carried by the map of its own fields, and
  decoding a map to it fails when a field has a value of the wrong kind, drops what is
  not a field, and fills a missing field with the zero value.
\<close>

definition digit_of :: "char \<Rightarrow> int option" where
  "digit_of c =
     (let n = (of_char c :: int) in if 48 \<le> n \<and> n \<le> 57 then Some (n - 48) else None)"

fun digits_value :: "string \<Rightarrow> int \<Rightarrow> int option" where
  "digits_value [] acc = Some acc"
| "digits_value (c # cs) acc =
     (case digit_of c of None \<Rightarrow> None | Some dgt \<Rightarrow> digits_value cs (10 * acc + dgt))"

definition decimal_Atoi :: "string \<Rightarrow> int option" where
  "decimal_Atoi s =
     (let neg = (take 1 s = ''-'');
          body = (if take 1 s = ''-'' \<or> take 1 s = ''+'' then drop 1 s else s)
      in if body = [] then None
         else case digits_value body 0 of
                None \<Rightarrow> None
              | Some n \<Rightarrow>
                  let i = (if neg then - n else n)
                  in if - (2 ^ 63) \<le> i \<and> i < 2 ^ 63 then Some i else None)"

definition decode_section :: "cfg_map \<Rightarrow> string \<Rightarrow> repo_error + cfg_map" where
  "decode_section m name =
     (case map_of m name of
        None \<Rightarrow> Inr []
      | Some (VMap flds) \<Rightarrow> Inr flds
      | Some _ \<Rightarrow> Inl (ErrOther ''Failure to decode config''))"

definition decode_string :: "cfg_map \<Rightarrow> string \<Rightarrow> repo_error + cfg_value" where
  "decode_string flds name =
     (case map_of flds name of
        None \<Rightarrow> Inr (VString [])
      | Some (VString x) \<Rightarrow> Inr (VString x)
      | Some _ \<Rightarrow> Inl (ErrOther ''Failure to decode config''))"

definition decode_number :: "cfg_map \<Rightarrow> string \<Rightarrow> repo_error + cfg_value" where
  "decode_number flds name =
     (case map_of flds name of
        None \<Rightarrow> Inr (VInt 0)
      | Some (VInt x) \<Rightarrow> Inr (VInt x)
      | Some _ \<Rightarrow> Inl (ErrOther ''Failure to decode config''))"

fun decode_fields ::
  "(cfg_map \<Rightarrow> string \<Rightarrow> repo_error + cfg_value) \<Rightarrow> cfg_map \<Rightarrow> string list
     \<Rightarrow> repo_error + cfg_map" where
  "decode_fields dec flds [] = Inr []"
| "decode_fields dec flds (name # names) =
     (case dec flds name of
        Inl err \<Rightarrow> Inl err
      | Inr x \<Rightarrow>
          (case decode_fields dec flds names of
             Inl err \<Rightarrow> Inl err
           | Inr rest \<Rightarrow> Inr ((name, x) # rest)))"

definition sample_FromMap :: "cfg_map \<Rightarrow> repo_error + cfg_map" where
  "sample_FromMap m =
     (case decode_section m ''Addresses'' of
        Inl err \<Rightarrow> Inl err
      | Inr addresses \<Rightarrow>
          (case decode_fields decode_string addresses [''API'', ''Gateway''] of
             Inl err \<Rightarrow> Inl err
           | Inr a \<Rightarrow>
               (case decode_section m ''Log'' of
                  Inl err \<Rightarrow> Inl err
                | Inr lg \<Rightarrow>
                    (case decode_fields decode_number lg
                            [''MaxSizeMB'', ''MaxBackups'', ''MaxAgeDays''] of
                       Inl err \<Rightarrow> Inl err
                     | Inr l \<Rightarrow> Inr [(''Addresses'', VMap a), (''Log'', VMap l)]))))"

definition sample_fs_env :: "cfg_map fs_env" where
  "sample_fs_env =
     \<lparr>path_Clean = (\<lambda>p. p),
      path_Join = (\<lambda>a b. a @ ''/'' @ b),
      TildeExpansion = (\<lambda>p.
        if take 1 p \<noteq> ''~'' then Inr p
        else if 1 < length p \<and> take 2 p \<noteq> ''~/''
          then Inl (ErrOther ''cannot expand user-specific home dir'')
        else Inr (''/home/u'' @ drop 1 p)),
      config_Filename = (\<lambda>p. Inr (p @ ''/config'')),
      FileExists = (\<lambda>f. f \<in> set [''/home/u/.ipfs/config'', ''/home/u/.ipfs/datastore'',
                                 ''/srv/.go-ipfs/config'', ''/srv/.go-ipfs/datastore'']),
      Version = (\<lambda>p. if p = ''/home/u/.ipfs'' then VersionIs ''1'' else VersionNotExist),
      dir_Writable = (\<lambda>p. None),
      serialize_Load = (\<lambda>f. Inr []),
      levelds_NewDatastore = (\<lambda>p. True),
      flatfs_New = (\<lambda>p n. True),
      strconv_Atoi = decimal_Atoi,
      read_fault = (\<lambda>f. None),
      write_fault = (\<lambda>f. None),
      config_FromMap = sample_FromMap,
      config_ToMap = (\<lambda>c. Inr c)\<rparr>"

definition sample_config :: cfg_map where
  "sample_config =
     [(''Addresses'', VMap [(''API'', VString ''/ip4/127.0.0.1/tcp/5001''),
                           (''Gateway'', VString ''/ip4/127.0.0.1/tcp/8080'')]),
      (''Log'', VMap [(''MaxSizeMB'', VInt 250), (''MaxBackups'', VInt 1),
                     (''MaxAgeDays'', VInt 0)])]"

definition world_unlocked :: world where
  "world_unlocked =
     \<lparr>lock_of = (\<lambda>p. Free), trace = [],
      cfg_file = (\<lambda>f. if f = ''/home/u/.ipfs/config'' then Some [] else None)\<rparr>"

definition world_locked_elsewhere :: world where
  "world_locked_elsewhere = world_unlocked\<lparr>lock_of := (\<lambda>p. HeldByOther)\<rparr>"

definition world_configured :: world where
  "world_configured =
     world_unlocked\<lparr>cfg_file :=
       (\<lambda>f. if f = ''/home/u/.ipfs/config'' then Some sample_config else None)\<rparr>"

definition sample_repo :: "cfg_map FSRepo" where
  "sample_repo =
     \<lparr>closed = False, path = ''/home/u/.ipfs'', lockfile = Some ''/home/u/.ipfs'',
      config = Some sample_config, ds = [], leveldbDS = Some ''/home/u/.ipfs/datastore''\<rparr>"

section \<open>Properties of the blockstore\<close>

lemma Put_without_Has_error:
  assumes "snd (ds_Has d s (DsKey env (Key b))) = None"
  shows "Put env d s b = ds_Put d s (DsKey env (Key b)) (Bytes (Data b))"
  using assms by (cases "ds_Has d s (DsKey env (Key b))") (simp add: Put_def Let_def)

text \<open>
  Claim C1. \<open>Put\<close> is meant to skip the write when the block is already stored. On a store
  that already holds the block \<open>foo\<close>, where \<open>Has\<close> answers \<open>(true, nil)\<close>, the
  guard \<open>err != nil && exists\<close> is false, and \<open>Put\<close> invokes the datastore's \<open>Put\<close>
  again: the write log, empty before, holds one entry after.
\<close>

theorem Put_rewrites_stored_block:
  "Has sample_env MapDatastore store_with_foo (Key foo_block) = (True, None)
   \<and> put_calls store_with_foo = []
   \<and> put_calls (snd (Put sample_env MapDatastore store_with_foo foo_block))
       = [(DsKey sample_env (Key foo_block), Bytes ''foo'')]"
  by (simp add: Has_def Put_def MapDatastore_def store_with_foo_def sample_env_def
        foo_block_def Key_def Let_def)

lemma get_closed: "snd (get env dn None) = False"
  by (simp add: get_def)

lemma get_ok_key:
  assumes "get env dn (Some e) = (k, True)" and "k \<noteq> []"
  shows "Cast env k \<noteq> None"
  using assms by (auto simp: get_def Let_def split: if_splits option.splits)

lemma producer_keys_cast:
  "k \<in> set (producer env sched res) \<Longrightarrow> Cast env k \<noteq> None"
proof (induction res arbitrary: sched)
  case Nil
  then show ?case by simp
next
  case (Cons e rest)
  obtain k' ok where g: "get env (sched_head sched) (Some e) = (k', ok)"
    by (cases "get env (sched_head sched) (Some e)")
  show ?case
  proof (cases "ok \<and> k' \<noteq> [] \<and> \<not> sched_head (tl sched)")
    case True
    with Cons.prems g have "k = k' \<or> k \<in> set (producer env (tl (tl sched)) rest)"
      by simp
    then show ?thesis
    proof
      assume "k = k'"
      with True g have "get env (sched_head sched) (Some e) = (k, True)" and "k \<noteq> []"
        by simp_all
      then show ?thesis by (rule get_ok_key)
    next
      assume "k \<in> set (producer env (tl (tl sched)) rest)"
      then show ?thesis by (rule Cons.IH)
    qed
  next
    case False
    with Cons.prems g have "ok \<and> k' = [] \<and> k \<in> set (producer env (tl sched) rest)"
      by (auto split: if_splits)
    then show ?thesis using Cons.IH by blast
  qed
qed

lemma producer_uncancelled:
  "True \<notin> set sched \<Longrightarrow>
   producer env sched res =
     filter (\<lambda>k. Cast env k \<noteq> None \<and> k \<noteq> [])
       (map (\<lambda>e. KeyFromDsKey env (NewKey env (r_Key e)))
          (takeWhile (\<lambda>e. r_Error e = None) res))"
proof (induction res arbitrary: sched)
  case Nil
  then show ?case by simp
next
  case (Cons e rest)
  have h: "\<not> sched_head sched" "\<not> sched_head (tl sched)"
    using Cons.prems by (cases sched; cases "tl sched"; auto simp: sched_head_def)+
  have t: "True \<notin> set (tl sched)" "True \<notin> set (tl (tl sched))"
    using Cons.prems by (cases sched; cases "tl sched"; auto)+
  show ?case
  proof (cases "r_Error e")
    case (Some err)
    then show ?thesis by (simp add: get_def h)
  next
    case noerr: None
    show ?thesis
    proof (cases "Cast env (KeyFromDsKey env (NewKey env (r_Key e)))")
      case None
      then show ?thesis using noerr h Cons.IH [OF t(1)] by (simp add: get_def)
    next
      case (Some m)
      then show ?thesis
        using noerr h Cons.IH [OF t(1)] Cons.IH [OF t(2)] by (simp add: get_def)
    qed
  qed
qed

text \<open>
  Claim C8. Whatever the schedule of cancellation, every key \<open>AllKeysChan\<close> emits is
  accepted by \<open>mh.Cast\<close>. Once the query has started the only outcome is the emitted
  sequence (no error reaches the consumer), and when the context is never cancelled that
  sequence is exactly the enumerated keys, up to the first query error, without those that
  \<open>mh.Cast\<close> rejects (and without the empty key): a rejected key is passed over and the
  keys after it are still emitted.
\<close>

theorem AllKeysChan_skips_non_multihash:
  assumes "AllKeysChan env d s sched = Inr out"
  shows "(\<forall>k \<in> set out. Cast env k \<noteq> None)
       \<and> (\<exists>res. ds_Query d s \<lparr>Prefix = BlockPrefix env, KeysOnly = True\<rparr> = Inr res
            \<and> (True \<notin> set sched \<longrightarrow>
                 out = filter (\<lambda>k. Cast env k \<noteq> None \<and> k \<noteq> [])
                         (map (\<lambda>e. KeyFromDsKey env (NewKey env (r_Key e)))
                            (takeWhile (\<lambda>e. r_Error e = None) res))))"
proof -
  obtain res where q: "ds_Query d s \<lparr>Prefix = BlockPrefix env, KeysOnly = True\<rparr> = Inr res"
    and out: "out = producer env sched res"
    using assms by (auto simp: AllKeysChan_def Let_def split: sum.splits)
  have "\<forall>k \<in> set out. Cast env k \<noteq> None"
    using out producer_keys_cast by blast
  moreover have "True \<notin> set sched \<longrightarrow>
      out = filter (\<lambda>k. Cast env k \<noteq> None \<and> k \<noteq> [])
              (map (\<lambda>e. KeyFromDsKey env (NewKey env (r_Key e)))
                 (takeWhile (\<lambda>e. r_Error e = None) res))"
    using out producer_uncancelled by blast
  ultimately show ?thesis using q by blast
qed

theorem AllKeysChan_skips_non_multihash_witness:
  "AllKeysChan sample_env MapDatastore store_with_stray_key []
     = Inr [[CHR 0x11, CHR 0x01, CHR ''W''], [CHR 0x11, CHR 0x01, CHR ''E'']]
   \<and> Cast sample_env [CHR 0x11, CHR 0x01, CHR ''W''] \<noteq> None
   \<and> Cast sample_env [CHR 0x11, CHR 0x01, CHR ''E''] \<noteq> None
   \<and> Cast sample_env (KeyFromDsKey sample_env (NewKey sample_env ''/blocks/stray'')) = None"
proof -
  have run: "AllKeysChan sample_env MapDatastore store_with_stray_key []
      = Inr [[CHR 0x11, CHR 0x01, CHR ''W''], [CHR 0x11, CHR 0x01, CHR ''E'']]"
    by (simp add: AllKeysChan_def MapDatastore_def store_with_stray_key_def sample_env_def
        BlockPrefix_def get_def sched_head_def base_namespace_def sample_Cast_def Let_def)
  have stray: "Cast sample_env (KeyFromDsKey sample_env (NewKey sample_env ''/blocks/stray''))
      = None"
    by (simp add: sample_env_def base_namespace_def sample_Cast_def)
  from AllKeysChan_skips_non_multihash [OF run] run stray show ?thesis
    by simp
qed

section \<open>Properties of the exchange message\<close>

lemma filter_key_update:
  "distinct (map fst al) \<Longrightarrow> filter (\<lambda>kv. fst kv = k) (AList.update k v al) = [(k, v)]"
proof (induction al)
  case Nil
  then show ?case by simp
next
  case (Cons a al)
  show ?case
  proof (cases "fst a = k")
    case True
    with Cons.prems have "k \<notin> fst ` set al" by auto
    then have "filter (\<lambda>kv. fst kv = k) al = []"
      by (auto simp: filter_empty_conv)
    with True show ?thesis by (cases a) simp
  next
    case False
    with Cons show ?thesis by (cases a) simp
  qed
qed

lemma filter_key_dupdate:
  "filter (\<lambda>kv. fst kv = k) (DAList.impl_of (DAList.update k v al)) = [(k, v)]"
  by (simp add: update.rep_eq filter_key_update)

text \<open>
  Claim C6. After \<open>AddEntry(k, p1)\<close> and then \<open>AddEntry(k, p2)\<close> on any message, the
  entries of \<open>Wantlist()\<close> whose key is \<open>k\<close> are exactly one entry, of priority \<open>p2\<close>.
\<close>

theorem AddEntry_twice_upserts:
  "filter (\<lambda>e. Entry_Key e = k) (Wantlist (AddEntry (AddEntry m k p1) k p2))
     = [\<lparr>Entry_Key = k, Priority = p2, Cancel = False\<rparr>]"
proof -
  let ?al = "DAList.update k (p2, False) (DAList.update k (p1, False) (wantlist m))"
  let ?f = "\<lambda>(k, p, c). \<lparr>Entry_Key = k, Priority = p, Cancel = c\<rparr>"
  have "filter (\<lambda>e. Entry_Key e = k) (map ?f (DAList.impl_of ?al))
        = map ?f (filter (\<lambda>kv. fst kv = k) (DAList.impl_of ?al))"
    by (simp add: filter_map comp_def case_prod_beta)
  also have "\<dots> = [\<lparr>Entry_Key = k, Priority = p2, Cancel = False\<rparr>]"
    by (simp add: filter_key_dupdate)
  finally show ?thesis
    by (simp add: Wantlist_def AddEntry_def addEntry_def)
qed


lemma AddBlock_appends: "Blocks (AddBlock m b) = Blocks m @ [b]"
  by (simp add: Blocks_def AddBlock_def)

lemma keys_update: "fst ` set (DAList.impl_of (DAList.update k v al)) = insert k (fst ` set (DAList.impl_of al))"
  by (simp add: update.rep_eq dom_update)

lemma Wantlist_keys: "Entry_Key ` set (Wantlist m) = fst ` set (DAList.impl_of (wantlist m))"
  by (force simp: Wantlist_def image_iff)

lemma fold_addEntry_blocks:
  "blocks (fold (\<lambda>e m. addEntry m (f e) (g e) (c e)) es m0) = blocks m0"
  by (induction es arbitrary: m0) (simp_all add: addEntry_def)

lemma fold_addEntry_keys:
  "fst ` set (DAList.impl_of (wantlist (fold (\<lambda>e m. addEntry m (f e) (g e) (c e)) es m0)))
     = f ` set es \<union> fst ` set (DAList.impl_of (wantlist m0))"
  by (induction es arbitrary: m0) (auto simp: addEntry_def keys_update)

lemma fold_AddBlock_wantlist:
  "wantlist (fold (\<lambda>d m. AddBlock m (NewBlock hash d)) dats m0) = wantlist m0"
  by (induction dats arbitrary: m0) (simp_all add: AddBlock_def)

lemma fold_AddBlock_blocks:
  "blocks (fold (\<lambda>d m. AddBlock m (NewBlock hash d)) dats m0)
     = blocks m0 @ map (NewBlock hash) dats"
  by (induction dats arbitrary: m0) (simp_all add: AddBlock_def)

lemma ToProto_entry_keys: "pb_Block ` set (pb_Entries (ToProto m)) = Entry_Key ` set (Wantlist m)"
  by (force simp: ToProto_def image_iff)

lemma ToProto_blocks: "pb_Blocks (ToProto m) = map Data (blocks m)"
  by (simp add: ToProto_def Blocks_def)

lemma New_empty: "DAList.impl_of (wantlist New) = []" "blocks New = []"
  by (simp_all add: New_def empty.rep_eq)

lemma roundtrip_wantlist:
  "Entry_Key ` set (Wantlist (newMessageFromProto hash (ToProto m))) = Entry_Key ` set (Wantlist m)"
  by (simp add: newMessageFromProto_def Let_def Wantlist_keys [of "fold _ _ _"]
      fold_AddBlock_wantlist fold_addEntry_keys ToProto_entry_keys New_empty)

lemma roundtrip_blocks:
  assumes "hashed hash m"
  shows "Key ` set (Blocks (newMessageFromProto hash (ToProto m))) = Key ` set (Blocks m)"
proof -
  have "Key ` (\<lambda>x. NewBlock hash (Data x)) ` set (blocks m) = Key ` set (blocks m)"
    using assms by (force simp: hashed_def NewBlock_def Key_def image_iff)
  then show ?thesis
    by (simp add: newMessageFromProto_def Let_def Blocks_def fold_AddBlock_blocks
        fold_addEntry_blocks ToProto_blocks New_empty)
qed

lemma hashed_New: "hashed hash New"
  by (simp add: hashed_def New_empty)

lemma hashed_apply_op:
  assumes "hashed hash m" and "\<And>b. op = OpAddBlock b \<Longrightarrow> Multihash b = hash (Data b)"
  shows "hashed hash (apply_op m op)"
proof (cases op)
  case (OpAddEntry k p)
  with assms(1) show ?thesis by (simp add: hashed_def AddEntry_def addEntry_def)
next
  case (OpAddBlock b)
  with assms(2) have "Key b = hash (Data b)" by (simp add: Key_def)
  with assms(1) OpAddBlock show ?thesis
    by (auto simp: hashed_def AddBlock_def)
qed

lemma hashed_foldl:
  assumes "hashed hash m" and "\<forall>b. OpAddBlock b \<in> set ops \<longrightarrow> Multihash b = hash (Data b)"
  shows "hashed hash (foldl apply_op m ops)"
  using assms
proof (induction ops arbitrary: m)
  case Nil
  then show ?case by simp
next
  case (Cons op ops)
  have "hashed hash (apply_op m op)"
    using Cons.prems by (intro hashed_apply_op) auto
  then show ?case using Cons by simp
qed

text \<open>
  Claim C2. For a message built from \<open>New()\<close> by any sequence of \<open>AddEntry\<close> and
  \<open>AddBlock\<close> calls, whose blocks satisfy the Block invariant (the Key is the hash of the
  data), writing it to a buffer with \<open>ToNet\<close> and reading the buffer with \<open>FromNet\<close>
  both succeed, and the message read has the same set of want-list keys and the same set
  of block keys as the original.
\<close>

theorem FromNet_ToNet_roundtrip:
  assumes "\<forall>b. OpAddBlock b \<in> set ops \<longrightarrow> Key b = hash (Data b)"
  shows "\<exists>t m' t'. ToNet (build ops) empty_buffer = Inr t
           \<and> FromNet hash t = Inr (m', t')
           \<and> Entry_Key ` set (Wantlist m') = Entry_Key ` set (Wantlist (build ops))
           \<and> Key ` set (Blocks m') = Key ` set (Blocks (build ops))"
proof -
  have h: "hashed hash (build ops)"
    unfolding build_def using hashed_New assms by (intro hashed_foldl) (auto simp: Key_def)
  have "ToNet (build ops) empty_buffer = Inr \<lparr>writable = True, stream = [Frame (ToProto (build ops))]\<rparr>"
    by (simp add: ToNet_def empty_buffer_def)
  moreover have "FromNet hash \<lparr>writable = True, stream = [Frame (ToProto (build ops))]\<rparr>
      = Inr (newMessageFromProto hash (ToProto (build ops)), \<lparr>writable = True, stream = []\<rparr>)"
    by (simp add: FromNet_def)
  ultimately show ?thesis
    using roundtrip_wantlist [of hash "build ops"] roundtrip_blocks [OF h] by blast
qed

theorem FromNet_ToNet_roundtrip_witness:
  "Key (NewBlock sample_hash ''W'') = sample_hash (Data (NewBlock sample_hash ''W''))
   \<and> (\<exists>t m' t'. ToNet (build sample_ops) empty_buffer = Inr t
           \<and> FromNet sample_hash t = Inr (m', t')
           \<and> Entry_Key ` set (Wantlist m') = Entry_Key ` set (Wantlist (build sample_ops))
           \<and> Key ` set (Blocks m') = Key ` set (Blocks (build sample_ops)))"
proof -
  have wf: "\<forall>b. OpAddBlock b \<in> set sample_ops \<longrightarrow> Key b = sample_hash (Data b)"
    by (auto simp: sample_ops_def NewBlock_def Key_def)
  from FromNet_ToNet_roundtrip [OF wf] show ?thesis
    by (simp add: NewBlock_def Key_def)
qed

lemma heap_apply_frame:
  assumes "heap_apply h a op = Some h'" and "deref h s = Some (ProtoCell p)"
  shows "deref h' s = Some (ProtoCell p)" and "length h' = length h"
    and "\<exists>m. deref h' a = Some (MsgCell m)"
  using assms by (auto simp: heap_apply_def deref_def nth_list_update split: option.splits cell.splits if_splits)

lemma heap_apply_all_frame:
  assumes "heap_apply_all h a ops = Some h'" and "deref h s = Some (ProtoCell p)"
  shows "deref h' s = Some (ProtoCell p)"
  using assms
proof (induction ops arbitrary: h)
  case Nil
  then show ?case by simp
next
  case (Cons op ops)
  then obtain h1 where s: "heap_apply h a op = Some h1" and r: "heap_apply_all h1 a ops = Some h'"
    by (auto split: option.splits)
  from heap_apply_frame(1) [OF s Cons.prems(2)] r show ?case by (rule Cons.IH [rotated])
qed

lemma wantlistContains_ToProto:
  "wantlistContains (ToProto m) k \<longleftrightarrow> k \<in> Entry_Key ` set (Wantlist m)"
  by (auto simp: wantlistContains_def list_ex_iff ToProto_entry_keys [symmetric])

text \<open>
  Claim C3. Let \<open>s\<close> be the snapshot that \<open>ToProto()\<close> returns for the message at
  address \<open>a\<close>. After any sequence of later \<open>AddEntry\<close> and \<open>AddBlock\<close> calls on
  that message the object at \<open>s\<close> is as it was: it is the structured copy of the message as
  it stood when the snapshot was taken, and it contains a key exactly when that message
  wanted the key, so no later \<open>AddEntry\<close> adds an entry to it.
\<close>

theorem ToProto_snapshot_isolated:
  assumes "heap_ToProto h a = Some (s, h1)" and "heap_apply_all h1 a ops = Some h2"
  shows "deref h2 s = deref h1 s
       \<and> (\<exists>m pbm. deref h a = Some (MsgCell m) \<and> deref h2 s = Some (ProtoCell pbm)
            \<and> pbm = ToProto m
            \<and> (\<forall>k. wantlistContains pbm k = (k \<in> Entry_Key ` set (Wantlist m))))"
proof -
  from assms(1) obtain m where m: "deref h a = Some (MsgCell m)"
    and s: "s = length h" and h1: "h1 = h @ [ProtoCell (ToProto m)]"
    by (auto simp: heap_ToProto_def split: option.splits cell.splits)
  have d1: "deref h1 s = Some (ProtoCell (ToProto m))"
    by (simp add: deref_def s h1)
  from heap_apply_all_frame [OF assms(2) d1] have d2: "deref h2 s = Some (ProtoCell (ToProto m))" .
  show ?thesis using m d1 d2 by (simp add: wantlistContains_ToProto)
qed

theorem ToProto_snapshot_isolated_witness:
  "heap_ToProto [MsgCell New] 0 = Some (1, [MsgCell New, ProtoCell (ToProto New)])
   \<and> heap_apply_all [MsgCell New, ProtoCell (ToProto New)] 0 [OpAddEntry ''foo'' 1]
       = Some [MsgCell (AddEntry New ''foo'' 1), ProtoCell (ToProto New)]
   \<and> deref [MsgCell (AddEntry New ''foo'' 1), ProtoCell (ToProto New)] 1
       = Some (ProtoCell (ToProto New))
   \<and> \<not> wantlistContains (ToProto New) ''foo''
   \<and> wantlistContains (ToProto (AddEntry New ''foo'' 1)) ''foo''"
proof -
  have snap: "heap_ToProto [MsgCell New] 0 = Some (1, [MsgCell New, ProtoCell (ToProto New)])"
    by (simp add: heap_ToProto_def deref_def)
  have muts: "heap_apply_all [MsgCell New, ProtoCell (ToProto New)] 0 [OpAddEntry ''foo'' 1]
      = Some [MsgCell (AddEntry New ''foo'' 1), ProtoCell (ToProto New)]"
    by (simp add: heap_apply_def deref_def)
  have live: "wantlistContains (ToProto (AddEntry New ''foo'' 1)) ''foo''"
    by (simp add: wantlistContains_def ToProto_def Wantlist_def AddEntry_def addEntry_def
        New_def update.rep_eq empty.rep_eq)
  have old: "Entry_Key ` set (Wantlist New) = {}"
    by (simp add: Wantlist_def New_def empty.rep_eq)
  from ToProto_snapshot_isolated [OF snap muts] snap muts live old show ?thesis
    by (simp add: deref_def)
qed

section \<open>Properties of the repository\<close>

lemma openConfig_effect:
  assumes "openConfig env r w = (res, w')"
  shows "lock_of w' = lock_of w"
    and "\<exists>evs. trace w' = trace w @ evs \<and> (\<forall>p. EvLock p \<notin> set evs \<and> EvUnlock p \<notin> set evs)"
    and "\<And>r'. res = Inr r' \<Longrightarrow> path r' = path r"
  using assms by (auto simp: openConfig_def emit_def split: sum.splits)

lemma openDatastore_effect:
  assumes "openDatastore env r w = (res, w')"
  shows "lock_of w' = lock_of w"
    and "\<exists>evs. trace w' = trace w @ evs \<and> (\<forall>p. EvLock p \<notin> set evs \<and> EvUnlock p \<notin> set evs)"
    and "\<And>r'. res = Inr r' \<Longrightarrow> path r' = path r"
  using assms by (auto simp: openDatastore_def emit_def Let_def split: if_splits)

lemma open_locked_effect:
  assumes "open_locked env r w = (res, w')"
  shows "lock_of w' = lock_of w"
    and "\<exists>evs. trace w' = trace w @ evs \<and> (\<forall>p. EvLock p \<notin> set evs \<and> EvUnlock p \<notin> set evs)"
    and "\<And>r'. res = Inr r' \<Longrightarrow> path r' = path r"
proof -
  have "lock_of w' = lock_of w
      \<and> (\<exists>evs. trace w' = trace w @ evs \<and> (\<forall>p. EvLock p \<notin> set evs \<and> EvUnlock p \<notin> set evs))
      \<and> (\<forall>r'. res = Inr r' \<longrightarrow> path r' = path r)"
  proof (cases "Version env (path r)")
    case VersionNotExist
    with assms show ?thesis by (auto simp: open_locked_def)
  next
    case (VersionUnreadable msg)
    with assms show ?thesis by (auto simp: open_locked_def)
  next
    case (VersionIs ver)
    show ?thesis
    proof (cases "ver \<noteq> RepoVersion \<or> dir_Writable env (path r) \<noteq> None")
      case True
      with assms VersionIs show ?thesis by (auto simp: open_locked_def split: if_splits)
    next
      case False
      obtain rc wc where c: "openConfig env r w = (rc, wc)" by (cases "openConfig env r w")
      show ?thesis
      proof (cases rc)
        case (Inl err)
        with assms VersionIs False c have "res = Inl err" "w' = wc"
          by (auto simp: open_locked_def)
        with openConfig_effect [OF c] show ?thesis by simp
      next
        case (Inr r1)
        obtain rd wd where d: "openDatastore env r1 wc = (rd, wd)"
          by (cases "openDatastore env r1 wc")
        from openConfig_effect [OF c] Inr obtain e1 where
          c1: "lock_of wc = lock_of w" "trace wc = trace w @ e1"
              "\<forall>p. EvLock p \<notin> set e1 \<and> EvUnlock p \<notin> set e1" "path r1 = path r"
          by blast
        from openDatastore_effect [OF d] obtain e2 where
          d1: "lock_of wd = lock_of wc" "trace wd = trace wc @ e2"
              "\<forall>p. EvLock p \<notin> set e2 \<and> EvUnlock p \<notin> set e2"
              "\<forall>r'. rd = Inr r' \<longrightarrow> path r' = path r1"
          by blast
        show ?thesis
        proof (cases rd)
          case (Inl err)
          with assms VersionIs False c d Inr have "res = Inl err" "w' = wd"
            by (auto simp: open_locked_def)
          with c1 d1 show ?thesis by simp
        next
          case r2: (Inr r2)
          with assms VersionIs False c d Inr have "res = Inr r2"
            "w' = emit (EvConfigureLog (path r2)) wd"
            by (auto simp: open_locked_def)
          with c1 d1 r2 show ?thesis by (simp add: emit_def)
        qed
      qed
    qed
  qed
  then show "lock_of w' = lock_of w"
    and "\<exists>evs. trace w' = trace w @ evs \<and> (\<forall>p. EvLock p \<notin> set evs \<and> EvUnlock p \<notin> set evs)"
    and "\<And>r'. res = Inr r' \<Longrightarrow> path r' = path r"
    by blast+
qed

text \<open>
  Claim C4. In every environment and state, the effects of \<open>open\<close> extend the trace,
  and: when \<open>open\<close> returns an error, every lock is held as before the call, and if
  the lock was taken during the call then releasing it is the last effect; when \<open>open\<close>
  returns a repository, the lock of its path is held by this process and was not
  released.
\<close>

theorem open_repo_lock_discipline:
  assumes "open_repo env w repoPath = (res, w')"
  shows "\<exists>evs. trace w' = trace w @ evs \<and>
     (case res of
        Inl err \<Rightarrow> lock_of w' = lock_of w \<and> (\<forall>p. EvLock p \<in> set evs \<longrightarrow> last evs = EvUnlock p)
      | Inr r \<Rightarrow> lock_of w' (path r) = HeldByUs \<and> EvLock (path r) \<in> set evs
                 \<and> (\<forall>p. EvUnlock p \<notin> set evs))"
proof (cases "newFSRepo env repoPath")
  case (Inl err)
  with assms have "res = Inl err" "w' = w" by (auto simp: open_repo_def)
  then show ?thesis by simp
next
  case (Inr r)
  show ?thesis
  proof (cases "checkInitialized env (path r)")
    case (Some err)
    with assms Inr have "res = Inl err" "w' = w" by (auto simp: open_repo_def)
    then show ?thesis by simp
  next
    case None
    show ?thesis
    proof (cases "lock_of w (path r) = Free")
      case False
      then have "lockfile_Lock w (path r) = Inl (ErrLockHeld (path r))"
        by (simp add: lockfile_Lock_def split: lock_state.splits)
      with assms Inr None have "res = Inl (ErrLockHeld (path r))" "w' = w"
        by (auto simp: open_repo_def)
      then show ?thesis by simp
    next
      case True
      define w1 where "w1 = emit (EvLock (path r)) (w\<lparr>lock_of := (lock_of w)(path r := HeldByUs)\<rparr>)"
      have lk: "lockfile_Lock w (path r) = Inr w1"
        using True by (simp add: lockfile_Lock_def w1_def)
      obtain rb wb where b: "open_locked env (r\<lparr>lockfile := Some (path r)\<rparr>) w1 = (rb, wb)"
        by (cases "open_locked env (r\<lparr>lockfile := Some (path r)\<rparr>) w1")
      from open_locked_effect [OF b] obtain evs where
        e: "lock_of wb = lock_of w1" "trace wb = trace w1 @ evs"
           "\<forall>p. EvLock p \<notin> set evs \<and> EvUnlock p \<notin> set evs"
           "\<forall>r'. rb = Inr r' \<longrightarrow> path r' = path r"
        by auto
      show ?thesis
      proof (cases rb)
        case (Inl err)
        with assms Inr None lk b have r: "res = Inl err" "w' = lockfile_Close wb (path r)"
          by (auto simp: open_repo_def)
        have "lock_of w' = lock_of w"
          using r e True by (auto simp: lockfile_Close_def emit_def w1_def)
        moreover have "trace w' = trace w @ (EvLock (path r) # evs @ [EvUnlock (path r)])"
          using r e by (simp add: lockfile_Close_def emit_def w1_def)
        ultimately show ?thesis using r e(3) by auto
      next
        case r2: (Inr r2)
        with assms Inr None lk b have r: "res = Inr r2" "w' = wb"
          by (auto simp: open_repo_def)
        have "lock_of w' (path r2) = HeldByUs"
          using r e r2 by (simp add: emit_def w1_def)
        moreover have "trace w' = trace w @ (EvLock (path r) # evs)"
          using r e by (simp add: emit_def w1_def)
        ultimately show ?thesis using r e r2 by auto
      qed
    qed
  qed
qed

theorem open_repo_lock_discipline_witness:
  "fst (open_repo sample_fs_env world_unlocked ''/home/u/.ipfs'')
     = Inl (ErrIncorrectRepoFmt ''1'' ''2'')
   \<and> trace (snd (open_repo sample_fs_env world_unlocked ''/home/u/.ipfs''))
     = [EvLock ''/home/u/.ipfs'', EvUnlock ''/home/u/.ipfs'']
   \<and> lock_of (snd (open_repo sample_fs_env world_unlocked ''/home/u/.ipfs''))
     = lock_of world_unlocked"
proof -
  let ?run = "open_repo sample_fs_env world_unlocked ''/home/u/.ipfs''"
  have run: "?run = (fst ?run, snd ?run)" by simp
  have res: "fst ?run = Inl (ErrIncorrectRepoFmt ''1'' ''2'')"
    by (simp add: open_repo_def newFSRepo_def checkInitialized_def isInitializedUnsynced_def
        configIsInitialized_def lockfile_Lock_def lockfile_Close_def open_locked_def emit_def
        sample_fs_env_def world_unlocked_def RepoVersion_def leveldbDirectory_def)
  have tr: "trace (snd ?run) = [EvLock ''/home/u/.ipfs'', EvUnlock ''/home/u/.ipfs'']"
    by (simp add: open_repo_def newFSRepo_def checkInitialized_def isInitializedUnsynced_def
        configIsInitialized_def lockfile_Lock_def lockfile_Close_def open_locked_def emit_def
        sample_fs_env_def world_unlocked_def RepoVersion_def leveldbDirectory_def)
  from open_repo_lock_discipline [OF run] res tr show ?thesis
    by auto
qed

lemma open_repo_lock_unavailable:
  assumes "newFSRepo env repoPath = Inr r"
    and "isInitializedUnsynced env (path r)"
    and "lock_of w (path r) \<noteq> Free"
  shows "open_repo env w repoPath = (Inl (ErrLockHeld (path r)), w)"
proof -
  have "checkInitialized env (path r) = None"
    using assms(2) by (simp add: checkInitialized_def)
  moreover have "lockfile_Lock w (path r) = Inl (ErrLockHeld (path r))"
    using assms(3) by (simp add: lockfile_Lock_def split: lock_state.splits)
  ultimately show ?thesis
    using assms(1) by (simp add: open_repo_def)
qed

lemma open_repo_expansion_fails:
  assumes "newFSRepo env repoPath = Inl err"
  shows "open_repo env w repoPath = (Inl err, w)"
  using assms by (simp add: open_repo_def)

text \<open>
  Claim C5, as amended. When the path expands, the repository is initialized, its lock is
  free and its version marker holds a version other than \<open>RepoVersion\<close>, \<open>open\<close>
  fails with the version error naming the version found and \<open>RepoVersion\<close>; it took the
  lock and released it, and did nothing else: no configuration was loaded and no datastore
  was opened.
\<close>

theorem open_repo_version_mismatch:
  assumes "newFSRepo env repoPath = Inr r"
    and "isInitializedUnsynced env (path r)"
    and "lock_of w (path r) = Free"
    and "Version env (path r) = VersionIs ver"
    and "ver \<noteq> RepoVersion"
  shows "fst (open_repo env w repoPath) = Inl (ErrIncorrectRepoFmt ver RepoVersion)
       \<and> trace (snd (open_repo env w repoPath)) = trace w @ [EvLock (path r), EvUnlock (path r)]
       \<and> lock_of (snd (open_repo env w repoPath)) = lock_of w
       \<and> cfg_file (snd (open_repo env w repoPath)) = cfg_file w"
proof -
  have ci: "checkInitialized env (path r) = None"
    using assms(2) by (simp add: checkInitialized_def)
  have "(lock_of w)(path r := Free) = lock_of w"
    using assms(3) by auto
  then show ?thesis
    using assms ci
    by (simp add: open_repo_def lockfile_Lock_def lockfile_Close_def open_locked_def emit_def)
qed

theorem open_repo_version_mismatch_witness:
  "newFSRepo sample_fs_env ''~/.ipfs'' = Inr (\<lparr>closed = False, path = ''/home/u/.ipfs'', lockfile = None, config = None, ds = [], leveldbDS = None\<rparr>)
   \<and> isInitializedUnsynced sample_fs_env ''/home/u/.ipfs''
   \<and> lock_of world_unlocked ''/home/u/.ipfs'' = Free
   \<and> Version sample_fs_env ''/home/u/.ipfs'' = VersionIs ''1''
   \<and> ''1'' \<noteq> RepoVersion
   \<and> fst (open_repo sample_fs_env world_unlocked ''~/.ipfs'')
       = Inl (ErrIncorrectRepoFmt ''1'' RepoVersion)
   \<and> trace (snd (open_repo sample_fs_env world_unlocked ''~/.ipfs''))
       = [EvLock ''/home/u/.ipfs'', EvUnlock ''/home/u/.ipfs'']"
proof -
  have a: "newFSRepo sample_fs_env ''~/.ipfs'' = Inr (\<lparr>closed = False, path = ''/home/u/.ipfs'', lockfile = None, config = None, ds = [], leveldbDS = None\<rparr>)"
    by (simp add: newFSRepo_def sample_fs_env_def)
  have b: "isInitializedUnsynced sample_fs_env ''/home/u/.ipfs''"
    by (simp add: isInitializedUnsynced_def configIsInitialized_def sample_fs_env_def
        leveldbDirectory_def)
  have c: "lock_of world_unlocked ''/home/u/.ipfs'' = Free"
    by (simp add: world_unlocked_def)
  have d: "Version sample_fs_env ''/home/u/.ipfs'' = VersionIs ''1''"
    by (simp add: sample_fs_env_def)
  have e: "''1'' \<noteq> RepoVersion"
    by (simp add: RepoVersion_def)
  from open_repo_version_mismatch [OF a _ _ _ e, of world_unlocked] a b c d e show ?thesis
    by (simp add: world_unlocked_def)
qed

text \<open>
  The claim as stated fails when another process holds the lock: the lock is taken before
  the version is read (line 115), so \<open>open\<close> returns the error of \<open>lockfile.Lock\<close>
  although the version marker holds 1.
\<close>

theorem open_repo_locked_elsewhere_counterexample:
  "isInitializedUnsynced sample_fs_env ''/home/u/.ipfs''
   \<and> Version sample_fs_env ''/home/u/.ipfs'' = VersionIs ''1''
   \<and> ''1'' \<noteq> RepoVersion
   \<and> lock_of world_locked_elsewhere ''/home/u/.ipfs'' = HeldByOther
   \<and> open_repo sample_fs_env world_locked_elsewhere ''/home/u/.ipfs''
       = (Inl (ErrLockHeld ''/home/u/.ipfs''), world_locked_elsewhere)
   \<and> fst (open_repo sample_fs_env world_locked_elsewhere ''/home/u/.ipfs'')
       \<noteq> Inl (ErrIncorrectRepoFmt ''1'' RepoVersion)"
  by (simp add: open_repo_def newFSRepo_def checkInitialized_def isInitializedUnsynced_def
      configIsInitialized_def lockfile_Lock_def sample_fs_env_def world_locked_elsewhere_def
      world_unlocked_def RepoVersion_def leveldbDirectory_def)

text \<open>
  Claim C10, as amended. When the path expands to \<open>path r\<close> and no repository is
  initialized there, \<open>open\<close> fails and leaves the state as it was (the lock is never
  requested): with \<open>ErrOldRepo\<close> when the path with its first \<open>.ipfs\<close> replaced by
  \<open>.go-ipfs\<close> is initialized, and with \<open>ErrNoRepo\<close> otherwise.
\<close>

theorem open_repo_not_initialized:
  assumes "newFSRepo env repoPath = Inr r"
    and "\<not> isInitializedUnsynced env (path r)"
  shows "open_repo env w repoPath =
           (Inl (if isInitializedUnsynced env
                      (strings_Replace_first (path r) ''.ipfs'' ''.go-ipfs'')
                 then ErrOldRepo else ErrNoRepo), w)"
  using assms by (simp add: open_repo_def checkInitialized_def Let_def)

theorem open_repo_not_initialized_witness:
  "newFSRepo sample_fs_env ''/srv/.ipfs'' = Inr (\<lparr>closed = False, path = ''/srv/.ipfs'', lockfile = None, config = None, ds = [], leveldbDS = None\<rparr>)
   \<and> \<not> isInitializedUnsynced sample_fs_env ''/srv/.ipfs''
   \<and> strings_Replace_first ''/srv/.ipfs'' ''.ipfs'' ''.go-ipfs'' = ''/srv/.go-ipfs''
   \<and> isInitializedUnsynced sample_fs_env ''/srv/.go-ipfs''
   \<and> open_repo sample_fs_env world_unlocked ''/srv/.ipfs'' = (Inl ErrOldRepo, world_unlocked)"
proof -
  have a: "newFSRepo sample_fs_env ''/srv/.ipfs'' = Inr (\<lparr>closed = False, path = ''/srv/.ipfs'', lockfile = None, config = None, ds = [], leveldbDS = None\<rparr>)"
    by (simp add: newFSRepo_def sample_fs_env_def)
  have b: "\<not> isInitializedUnsynced sample_fs_env ''/srv/.ipfs''"
    by (simp add: isInitializedUnsynced_def configIsInitialized_def sample_fs_env_def
        leveldbDirectory_def)
  have c: "strings_Replace_first ''/srv/.ipfs'' ''.ipfs'' ''.go-ipfs'' = ''/srv/.go-ipfs''"
    by simp
  have d: "isInitializedUnsynced sample_fs_env ''/srv/.go-ipfs''"
    by (simp add: isInitializedUnsynced_def configIsInitialized_def sample_fs_env_def
        leveldbDirectory_def)
  from open_repo_not_initialized [OF a, of world_unlocked] a b c d show ?thesis
    by simp
qed

text \<open>
  The claim as stated fails for a path that \<open>u.TildeExpansion\<close> rejects: \<open>open\<close>
  returns that error from \<open>newFSRepo\<close> (lines 105-108), which is neither of the two
  errors.
\<close>

theorem open_repo_unexpandable_path_counterexample:
  "\<not> isInitializedUnsynced sample_fs_env ''~bob/.ipfs''
   \<and> \<not> isInitializedUnsynced sample_fs_env
         (strings_Replace_first ''~bob/.ipfs'' ''.ipfs'' ''.go-ipfs'')
   \<and> open_repo sample_fs_env world_unlocked ''~bob/.ipfs''
       = (Inl (ErrOther ''cannot expand user-specific home dir''), world_unlocked)
   \<and> fst (open_repo sample_fs_env world_unlocked ''~bob/.ipfs'') \<noteq> Inl ErrNoRepo
   \<and> fst (open_repo sample_fs_env world_unlocked ''~bob/.ipfs'') \<noteq> Inl ErrOldRepo"
  by (simp add: open_repo_def newFSRepo_def isInitializedUnsynced_def
      configIsInitialized_def sample_fs_env_def leveldbDirectory_def)

lemma ReadConfigFile_after_write:
  assumes "ReadConfigFile env w filename = Inr m0"
    and "WriteConfigFile env w filename m = Inr w1"
  shows "ReadConfigFile env w1 filename = Inr m"
  using assms
  by (auto simp: ReadConfigFile_def WriteConfigFile_def split: option.splits)

lemma WriteConfigFile_file:
  assumes "WriteConfigFile env w filename m = Inr w1"
  shows "cfg_file w1 filename = Some m"
  using assms by (auto simp: WriteConfigFile_def split: option.splits)

lemma setConfigUnsynced_ok:
  assumes "setConfigUnsynced env r w conf = (None, r', w')"
    and "config_Filename env (path r) = Inr filename"
    and "ReadConfigFile env w filename = Inr mapconf"
  shows "\<exists>m. config_ToMap env conf = Inr m
           \<and> WriteConfigFile env w filename (overlay mapconf m) = Inr w'
           \<and> r' = r\<lparr>config := Some conf\<rparr>"
  using assms by (auto simp: setConfigUnsynced_def split: sum.splits)

lemma strings_Split_nonempty: "strings_Split s sep \<noteq> []"
  by (induction s) (auto split: list.splits)

lemma getKV_after_setKV:
  assumes "setKV_walk cursor sofar parts val = Inr cursor'" and "parts \<noteq> []"
  shows "getKV_walk cursor' sofar' parts = Inr val"
  using assms
proof (induction cursor sofar parts val arbitrary: cursor' sofar' rule: setKV_walk.induct)
  case (1 cursor sofar val)
  then show ?case by simp
next
  case (2 cursor sofar part val)
  then show ?case by (auto simp: update_conv' split: cfg_value.splits)
next
  case (3 cursor sofar part v va val)
  then show ?case
    by (auto simp: update_conv' Let_def split: cfg_value.splits sum.splits)
qed

lemma setKV_walk_map:
  assumes "setKV_walk (VMap m) sofar parts val = Inr c"
  shows "\<exists>x. c = VMap x"
proof (cases parts)
  case Nil
  with assms show ?thesis by auto
next
  case (Cons part rest)
  with assms show ?thesis
    by (cases rest) (auto simp: Let_def split: sum.splits)
qed

lemma MapGetKV_after_MapSetKV:
  assumes "MapSetKV m k val = Inr m'"
  shows "MapGetKV m' k = Inr val"
proof -
  from assms obtain c where c: "setKV_walk (VMap m) [] (strings_Split k CHR ''.'') val = Inr c"
    by (auto simp: MapSetKV_def split: sum.splits)
  from setKV_walk_map [OF c] obtain x where "c = VMap x" by blast
  with assms c have "c = VMap m'" by (simp add: MapSetKV_def)
  with c show ?thesis
    unfolding MapGetKV_def
    using getKV_after_setKV strings_Split_nonempty by blast
qed

lemma map_of_overlay: "map_of (overlay mc tm) = map_of mc ++ map_of tm"
  unfolding overlay_def
  by (induction tm) (auto simp: update_conv' fun_eq_iff map_add_def split: option.splits)

lemma MapGetKV_overlay:
  "MapGetKV (overlay mc tm) k =
     (if hd (strings_Split k CHR ''.'') \<in> fst ` set tm then MapGetKV tm k else MapGetKV mc k)"
proof -
  obtain part parts where sp: "strings_Split k CHR ''.'' = part # parts"
    using strings_Split_nonempty [of k "CHR ''.''"] by (cases "strings_Split k CHR ''.''") auto
  show ?thesis
  proof (cases "map_of tm part")
    case None
    then have "part \<notin> fst ` set tm" by (simp add: map_of_eq_None_iff)
    with None sp show ?thesis by (simp add: MapGetKV_def map_of_overlay map_add_def)
  next
    case (Some x)
    then have "part \<in> fst ` set tm" by (metis map_of_eq_None_iff option.distinct(1))
    with Some sp show ?thesis by (simp add: MapGetKV_def map_of_overlay map_add_def)
  qed
qed

text \<open>
  Claim C9, as amended. Whenever \<open>SetConfigKey\<close> with a string value returns no error,
  the map that it writes holds at the key the integer when \<open>strconv.Atoi\<close> accepts the
  string and the string itself otherwise; the map decoded to a \<open>Config\<close>; the
  configuration file then holds that map with the top-level fields of the \<open>Config\<close>
  written over it; and a following \<open>GetConfigKey\<close> of the key yields the value when the
  first component of the key is not one of those fields, or when the \<open>Config\<close> carries
  the value at the key itself.
\<close>

theorem SetConfigKey_stores_converted_value:
  assumes "SetConfigKey env r w k (VString v) = (None, r', w')"
  shows "\<exists>filename mapconf mapconf' conf tm.
           config_Filename env (path r) = Inr filename
         \<and> ReadConfigFile env w filename = Inr mapconf
         \<and> MapSetKV mapconf k
               (case strconv_Atoi env v of Some i \<Rightarrow> VInt i | None \<Rightarrow> VString v)
             = Inr mapconf'
         \<and> MapGetKV mapconf' k
             = Inr (case strconv_Atoi env v of Some i \<Rightarrow> VInt i | None \<Rightarrow> VString v)
         \<and> config_FromMap env mapconf' = Inr conf
         \<and> config_ToMap env conf = Inr tm
         \<and> cfg_file w' filename = Some (overlay mapconf' tm)
         \<and> (hd (strings_Split k CHR ''.'') \<notin> fst ` set tm
              \<or> MapGetKV tm k
                  = Inr (case strconv_Atoi env v of Some i \<Rightarrow> VInt i | None \<Rightarrow> VString v)
             \<longrightarrow> GetConfigKey env r' w' k
                   = Inr (case strconv_Atoi env v of Some i \<Rightarrow> VInt i | None \<Rightarrow> VString v))"
proof -
  let ?val = "case strconv_Atoi env v of Some i \<Rightarrow> VInt i | None \<Rightarrow> VString v"
  have cv: "convert_value env (VString v) = ?val"
    by (simp add: convert_value_def)
  from assms have nc: "\<not> closed r"
    by (auto simp: SetConfigKey_def)
  from assms nc obtain filename where fn: "config_Filename env (path r) = Inr filename"
    by (auto simp: SetConfigKey_def split: sum.splits)
  from assms nc fn obtain mapconf where rd: "ReadConfigFile env w filename = Inr mapconf"
    by (auto simp: SetConfigKey_def Let_def split: sum.splits)
  from assms nc fn rd cv obtain mapconf' where st: "MapSetKV mapconf k ?val = Inr mapconf'"
    by (auto simp: SetConfigKey_def Let_def split: sum.splits)
  from assms nc fn rd cv st obtain conf where fm: "config_FromMap env mapconf' = Inr conf"
    by (auto simp: SetConfigKey_def Let_def split: sum.splits)
  from assms nc fn rd cv st fm obtain w1 where
    wr: "WriteConfigFile env w filename mapconf' = Inr w1"
    by (auto simp: SetConfigKey_def Let_def split: sum.splits)
  from assms nc fn rd cv st fm wr have sc: "setConfigUnsynced env r w1 conf = (None, r', w')"
    by (simp add: SetConfigKey_def Let_def)
  have rd1: "ReadConfigFile env w1 filename = Inr mapconf'"
    using rd wr by (rule ReadConfigFile_after_write)
  from setConfigUnsynced_ok [OF sc fn rd1] obtain tm where
    tm: "config_ToMap env conf = Inr tm"
    and wr2: "WriteConfigFile env w1 filename (overlay mapconf' tm) = Inr w'"
    and r': "r' = r\<lparr>config := Some conf\<rparr>"
    by blast
  have fl: "cfg_file w' filename = Some (overlay mapconf' tm)"
    using wr2 by (rule WriteConfigFile_file)
  have "ReadConfigFile env w' filename = Inr (overlay mapconf' tm)"
    using rd1 wr2 by (rule ReadConfigFile_after_write)
  then have gk: "GetConfigKey env r' w' k = MapGetKV (overlay mapconf' tm) k"
    using nc fn r' by (simp add: GetConfigKey_def)
  have stored: "MapGetKV mapconf' k = Inr ?val"
    using st by (rule MapGetKV_after_MapSetKV)
  have "hd (strings_Split k CHR ''.'') \<notin> fst ` set tm \<or> MapGetKV tm k = Inr ?val
      \<longrightarrow> GetConfigKey env r' w' k = Inr ?val"
    using gk stored by (auto simp: MapGetKV_overlay)
  with fn rd st stored fm tm fl show ?thesis by blast
qed

theorem SetConfigKey_stores_converted_value_witness:
  "fst (SetConfigKey sample_fs_env sample_repo world_configured ''Log.MaxSizeMB''
          (VString ''500'')) = None
   \<and> strconv_Atoi sample_fs_env ''500'' = Some 500
   \<and> GetConfigKey sample_fs_env
        (fst (snd (SetConfigKey sample_fs_env sample_repo world_configured ''Log.MaxSizeMB''
                     (VString ''500''))))
        (snd (snd (SetConfigKey sample_fs_env sample_repo world_configured ''Log.MaxSizeMB''
                     (VString ''500''))))
        ''Log.MaxSizeMB'' = Inr (VInt 500)"
proof -
  let ?run = "SetConfigKey sample_fs_env sample_repo world_configured ''Log.MaxSizeMB''
                (VString ''500'')"
  have atoi: "strconv_Atoi sample_fs_env ''500'' = Some 500"
    by (simp add: sample_fs_env_def decimal_Atoi_def digit_of_def Let_def)
  have fn: "config_Filename sample_fs_env (path sample_repo) = Inr ''/home/u/.ipfs/config''"
    by (simp add: sample_fs_env_def sample_repo_def)
  have rd: "ReadConfigFile sample_fs_env world_configured ''/home/u/.ipfs/config''
      = Inr sample_config"
    by (simp add: ReadConfigFile_def sample_fs_env_def world_configured_def)
  have st: "MapSetKV sample_config ''Log.MaxSizeMB'' (VInt 500)
      = Inr [(''Addresses'', VMap [(''API'', VString ''/ip4/127.0.0.1/tcp/5001''),
                                   (''Gateway'', VString ''/ip4/127.0.0.1/tcp/8080'')]),
             (''Log'', VMap [(''MaxSizeMB'', VInt 500), (''MaxBackups'', VInt 1),
                             (''MaxAgeDays'', VInt 0)])]"
    by (simp add: MapSetKV_def sample_config_def Let_def)
  have fm: "config_FromMap sample_fs_env
        [(''Addresses'', VMap [(''API'', VString ''/ip4/127.0.0.1/tcp/5001''),
                               (''Gateway'', VString ''/ip4/127.0.0.1/tcp/8080'')]),
         (''Log'', VMap [(''MaxSizeMB'', VInt 500), (''MaxBackups'', VInt 1),
                         (''MaxAgeDays'', VInt 0)])]
      = Inr [(''Addresses'', VMap [(''API'', VString ''/ip4/127.0.0.1/tcp/5001''),
                                   (''Gateway'', VString ''/ip4/127.0.0.1/tcp/8080'')]),
             (''Log'', VMap [(''MaxSizeMB'', VInt 500), (''MaxBackups'', VInt 1),
                             (''MaxAgeDays'', VInt 0)])]"
    by (simp add: sample_fs_env_def sample_FromMap_def decode_section_def decode_string_def
        decode_number_def)
  have tm: "\<And>c. config_ToMap sample_fs_env c = Inr c"
    by (simp add: sample_fs_env_def)
  have ok: "fst ?run = None"
    by (simp add: SetConfigKey_def setConfigUnsynced_def ReadConfigFile_def
        WriteConfigFile_def convert_value_def overlay_def MapSetKV_def sample_FromMap_def
        decode_section_def decode_string_def decode_number_def sample_config_def
        sample_fs_env_def sample_repo_def world_configured_def world_unlocked_def
        decimal_Atoi_def digit_of_def Let_def)
  then have run: "?run = (None, fst (snd ?run), snd (snd ?run))"
    by (metis prod.collapse)
  have kept: "MapGetKV
        [(''Addresses'', VMap [(''API'', VString ''/ip4/127.0.0.1/tcp/5001''),
                               (''Gateway'', VString ''/ip4/127.0.0.1/tcp/8080'')]),
         (''Log'', VMap [(''MaxSizeMB'', VInt 500), (''MaxBackups'', VInt 1),
                         (''MaxAgeDays'', VInt 0)])] ''Log.MaxSizeMB'' = Inr (VInt 500)"
    by (simp add: MapGetKV_def)
  from SetConfigKey_stores_converted_value [OF run] ok atoi show ?thesis
    by (auto simp: fn rd st fm tm kept)
qed

text \<open>
  The claim as stated fails when a step of \<open>SetConfigKey\<close> fails. \<open>Addresses.API\<close> is
  a string field; with the value \<open>5001\<close> the type switch puts the integer into the map,
  \<open>config.FromMap\<close> cannot decode it (lines 481-484), nothing is written, and
  \<open>GetConfigKey\<close> still yields the address that was there.
\<close>

theorem SetConfigKey_rejected_counterexample:
  "\<not> closed sample_repo
   \<and> strconv_Atoi sample_fs_env ''5001'' = Some 5001
   \<and> SetConfigKey sample_fs_env sample_repo world_configured ''Addresses.API'' (VString ''5001'')
       = (Some (ErrOther ''Failure to decode config''), sample_repo, world_configured)
   \<and> GetConfigKey sample_fs_env sample_repo world_configured ''Addresses.API''
       = Inr (VString ''/ip4/127.0.0.1/tcp/5001'')
   \<and> GetConfigKey sample_fs_env sample_repo world_configured ''Addresses.API''
       \<noteq> Inr (VInt 5001)"
  by (simp add: SetConfigKey_def GetConfigKey_def ReadConfigFile_def convert_value_def
      MapSetKV_def MapGetKV_def sample_FromMap_def decode_section_def decode_string_def
      decode_number_def sample_config_def
      sample_fs_env_def sample_repo_def world_configured_def world_unlocked_def
      decimal_Atoi_def digit_of_def Let_def)

text \<open>
  The case that the amended claim leaves out: a key under a section of the \<open>Config\<close>
  that the \<open>Config\<close> does not carry. In the sample configuration \<open>SetConfigKey\<close>
  returns no error for \<open>Log.Foo\<close>, and the section \<open>Log\<close> written over the map by
  \<open>setConfigUnsynced\<close> no longer has the key.
\<close>

lemma SetConfigKey_sample_nested_key_dropped:
  "fst (SetConfigKey sample_fs_env sample_repo world_configured ''Log.Foo'' (VString ''5''))
     = None
   \<and> GetConfigKey sample_fs_env
        (fst (snd (SetConfigKey sample_fs_env sample_repo world_configured ''Log.Foo''
                     (VString ''5''))))
        (snd (snd (SetConfigKey sample_fs_env sample_repo world_configured ''Log.Foo''
                     (VString ''5''))))
        ''Log.Foo'' = Inl (ErrKeyNoAttributes ''Log'')"
  by (simp add: SetConfigKey_def setConfigUnsynced_def GetConfigKey_def ReadConfigFile_def
      WriteConfigFile_def convert_value_def overlay_def
      MapSetKV_def MapGetKV_def sample_FromMap_def decode_section_def decode_string_def
      decode_number_def sample_config_def
      sample_fs_env_def sample_repo_def world_configured_def world_unlocked_def
      decimal_Atoi_def digit_of_def Let_def)

end
